theory Spec2Isabelle
  imports Main "HOL-Library.Sublist" "HOL-Library.Multiset"
begin

section \<open>The component model of \<open>_basecomponents.py\<close>\<close>

text \<open>
  The module defines two class families: containers (\<open>GenericContainer\<close> and its
  subclasses), which own an ordered list of sub-components and may carry a layout list, and
  commands (\<open>GenericCommand\<close> and its subclasses), which are leaves. Exceptions are
  values of the type \<open>error\<close>; \<open>IndexError\<close>, \<open>AttributeError\<close> and
  \<open>TypeError\<close> are the built-in exceptions that list indexing, a missing method and
  iterating an object without \<open>__iter__\<close> raise.
\<close>

datatype error =
  PyRevitUnknownFormatError
| PyRevitNoScriptFileError
| IndexError
| AttributeError
| TypeError

datatype container_kind =
  GenericContainer
| Package
| Tab
| Panel
| GenericStack
| StackThreeButtonGroup
| StackTwoButtonGroup
| GenericCommandGroup
| PullDownButtonGroup
| SplitPushButtonGroup
| SplitButtonGroup

datatype command_kind =
  GenericCommand
| LinkButton
| PushButton
| ToggleButton

text \<open>
  The attributes both \<open>__init__\<close> methods assign. \<open>layout_list\<close> is \<open>None\<close> when
  the container has no layout file (\<open>_read_layout_file\<close> then returns nothing).
  \<open>package_info\<close> holds the \<open>author\<close> and \<open>version\<close> attributes that only
  \<open>Package.__init__\<close> adds, \<open>toggle_icons\<close> the \<open>icon_on_file\<close> and
  \<open>icon_off_file\<close> attributes that only \<open>ToggleButton.__init__\<close> adds.
\<close>

record component_attrs =
  directory :: string
  original_name :: string
  name :: string
  unique_name :: string
  library_path :: string
  icon_file :: "string option"

record container_attrs = component_attrs +
  layout_list :: "string list option"
  package_info :: "(string option \<times> string option) option"

record command_attrs = component_attrs +
  script_file :: string
  min_pyrevit_ver :: "string option"
  min_revit_ver :: "string option"
  doc_string :: "string option"
  author :: "string option"
  search_paths :: "string list"
  toggle_icons :: "(string option \<times> string option) option"

datatype component =
  Container container_kind container_attrs "component list"
| Command command_kind command_attrs

fun comp_name :: "component \<Rightarrow> string" where
  "comp_name (Container k a cs) = name a"
| "comp_name (Command k a) = name a"

fun sub_components :: "component \<Rightarrow> component list" where
  "sub_components (Container k a cs) = cs"
| "sub_components (Command k a) = []"


subsection \<open>Constants of \<open>config.py\<close> and the external collaborators\<close>

text \<open>
  \<open>config.py\<close>, \<open>utils.py\<close> and \<open>usersettings.py\<close> are imported by the module
  but are not part of the sources at hand, so the constants are fields of a record that
  every function takes, and the collaborators (the alias table, the file system, the
  script parser and \<open>cleanup_string\<close>) are fields of an environment.
\<close>

record config =
  PACKAGE_POSTFIX :: string
  TAB_POSTFIX :: string
  PANEL_POSTFIX :: string
  LINK_BUTTON_POSTFIX :: string
  PUSH_BUTTON_POSTFIX :: string
  TOGGLE_BUTTON_POSTFIX :: string
  PULLDOWN_BUTTON_POSTFIX :: string
  STACKTHREE_BUTTON_POSTFIX :: string
  STACKTWO_BUTTON_POSTFIX :: string
  SPLIT_BUTTON_POSTFIX :: string
  SPLITPUSH_BUTTON_POSTFIX :: string
  DEFAULT_ICON_FILE :: string
  DEFAULT_SCRIPT_FILE :: string
  DEFAULT_ON_ICON_FILE :: string
  DEFAULT_OFF_ICON_FILE :: string
  DEFAULT_LAYOUT_FILE_NAME :: string
  DOCSTRING_PARAM :: string
  AUTHOR_PARAM :: string
  COMPONENT_LIB_NAME :: string
  MIN_REVIT_VERSION_PARAM :: string
  MIN_PYREVIT_VERSION_PARAM :: string

record env =
  get_alias :: "string \<Rightarrow> string \<Rightarrow> string"
  path_exists :: "string \<Rightarrow> bool"
  readlines :: "string \<Rightarrow> string list"
  extract_param :: "string \<Rightarrow> string \<Rightarrow> string option"
  cleanup_string :: "string \<Rightarrow> string"

text \<open>The class attribute \<open>type_id\<close>; the three generic classes keep the empty string.\<close>

fun container_type_id :: "config \<Rightarrow> container_kind \<Rightarrow> string" where
  "container_type_id cfg GenericContainer = []"
| "container_type_id cfg Package = PACKAGE_POSTFIX cfg"
| "container_type_id cfg Tab = TAB_POSTFIX cfg"
| "container_type_id cfg Panel = PANEL_POSTFIX cfg"
| "container_type_id cfg GenericStack = []"
| "container_type_id cfg StackThreeButtonGroup = STACKTHREE_BUTTON_POSTFIX cfg"
| "container_type_id cfg StackTwoButtonGroup = STACKTWO_BUTTON_POSTFIX cfg"
| "container_type_id cfg GenericCommandGroup = []"
| "container_type_id cfg PullDownButtonGroup = PULLDOWN_BUTTON_POSTFIX cfg"
| "container_type_id cfg SplitPushButtonGroup = SPLITPUSH_BUTTON_POSTFIX cfg"
| "container_type_id cfg SplitButtonGroup = SPLIT_BUTTON_POSTFIX cfg"

fun command_type_id :: "config \<Rightarrow> command_kind \<Rightarrow> string" where
  "command_type_id cfg GenericCommand = []"
| "command_type_id cfg LinkButton = LINK_BUTTON_POSTFIX cfg"
| "command_type_id cfg PushButton = PUSH_BUTTON_POSTFIX cfg"
| "command_type_id cfg ToggleButton = TOGGLE_BUTTON_POSTFIX cfg"

text \<open>\<open>__repr__\<close> of the two class families, used when a list of components is logged.\<close>

fun repr :: "config \<Rightarrow> component \<Rightarrow> string" where
  "repr cfg (Container k a cs) =
     ''Name: '' @ original_name a @ '' Directory: '' @ directory a"
| "repr cfg (Command k a) =
     ''Type Id: '' @ command_type_id cfg k @ '' Directory: '' @ directory a
       @ '' Name: '' @ original_name a"

subsection \<open>Strings and \<open>os.path\<close>\<close>

text \<open>
  \<open>os.path\<close> is modelled as \<open>posixpath\<close>, the flavour of the paths in the module's own
  docstrings (\<open>/pyRevit.package/pyRevit.tab/Edit.panel\<close>): the separator is \<open>/\<close>, there
  is no alternative separator and no drive.
\<close>

definition sep :: char where
  "sep = CHR ''/''"

definition extsep :: char where
  "extsep = CHR ''.''"

text \<open>\<open>str.endswith\<close>.\<close>

definition endswith :: "string \<Rightarrow> string \<Rightarrow> bool" where
  "endswith s suf = (length suf \<le> length s \<and> drop (length s - length suf) s = suf)"

text \<open>\<open>str.rfind\<close> of a single character: the highest index where it occurs, or \<open>-1\<close>.\<close>

fun rfind :: "char \<Rightarrow> string \<Rightarrow> int" where
  "rfind c [] = - 1"
| "rfind c (x # xs) =
     (let r = rfind c xs in if 0 \<le> r then r + 1 else if x = c then 0 else - 1)"

text \<open>\<open>str.split(sep)\<close> with a one-character separator: every occurrence splits.\<close>

fun split_str :: "char \<Rightarrow> string \<Rightarrow> string list" where
  "split_str c [] = [[]]"
| "split_str c (x # xs) =
     (if x = c then [] # split_str c xs
      else (case split_str c xs of
              [] \<Rightarrow> [[x]]
            | y # ys \<Rightarrow> (x # y) # ys))"

text \<open>\<open>posixpath.basename\<close>: \<open>i = p.rfind('/') + 1; return p[i:]\<close>.\<close>

definition basename :: "string \<Rightarrow> string" where
  "basename p = drop (nat (rfind sep p + 1)) p"

text \<open>
  \<open>genericpath._splitext\<close>: the extension starts at the last dot of the last segment,
  unless only dots precede it there. The \<open>while\<close> loop that skips the leading dots is
  \<open>splitext_loop\<close>; it returns in the loop body at the first character that is not a dot.
\<close>

function splitext_loop :: "string \<Rightarrow> nat \<Rightarrow> nat \<Rightarrow> (string \<times> string) option" where
  "splitext_loop p filenameIndex dotIndex =
     (if filenameIndex < dotIndex then
        (if take 1 (drop filenameIndex p) \<noteq> [extsep]
         then Some (take dotIndex p, drop dotIndex p)
         else splitext_loop p (Suc filenameIndex) dotIndex)
      else None)"
  by pat_completeness auto
termination
  by (relation "measure (\<lambda>(p, filenameIndex, dotIndex). dotIndex - filenameIndex)") auto

declare splitext_loop.simps [simp del]

definition splitext :: "string \<Rightarrow> string \<times> string" where
  "splitext p =
     (let sepIndex = rfind sep p; dotIndex = rfind extsep p in
      if dotIndex > sepIndex then
        (case splitext_loop p (nat (sepIndex + 1)) (nat dotIndex) of
           Some r \<Rightarrow> r
         | None \<Rightarrow> (p, []))
      else (p, []))"

text \<open>\<open>posixpath.join\<close> of two components.\<close>

definition join_path :: "string \<Rightarrow> string \<Rightarrow> string" where
  "join_path a b =
     (if take 1 b = [sep] then b
      else if a = [] \<or> endswith a [sep] then a @ b
      else a @ [sep] @ b)"

subsection \<open>The methods shared by both class families\<close>

text \<open>
  \<open>_is_valid_dir\<close>, \<open>_get_name\<close>, \<open>_get_library\<close> and \<open>_verify_file\<close> have the same
  body in \<open>GenericContainer\<close> and in \<open>GenericCommand\<close>.
\<close>

definition is_valid_dir :: "string \<Rightarrow> string \<Rightarrow> bool" where
  "is_valid_dir type_id dir = endswith dir type_id"

definition get_name :: "string \<Rightarrow> string" where
  "get_name dir = fst (splitext (basename dir))"

definition get_library :: "config \<Rightarrow> string \<Rightarrow> string" where
  "get_library cfg dir = join_path dir (COMPONENT_LIB_NAME cfg)"

definition verify_file :: "env \<Rightarrow> string \<Rightarrow> string \<Rightarrow> string option" where
  "verify_file ev dir file_name =
     (if path_exists ev (join_path dir file_name) then Some file_name else None)"

text \<open>
  \<open>_get_unique_name\<close>: the loop over \<open>dir_str.split(op.sep)\<close> with the accumulator
  \<open>uname\<close>, then \<open>cleanup_string\<close>. The two classes repeat the same body.
\<close>

fun unique_name_loop :: "string list \<Rightarrow> string \<Rightarrow> string" where
  "unique_name_loop [] uname = uname"
| "unique_name_loop (dname # rest) uname =
     (case splitext dname of
        (nm, ext) \<Rightarrow>
          if ext \<noteq> [] then unique_name_loop rest (uname @ nm)
          else unique_name_loop rest uname)"

definition container_get_unique_name :: "env \<Rightarrow> string \<Rightarrow> string" where
  "container_get_unique_name ev dir = cleanup_string ev (unique_name_loop (split_str sep dir) [])"

definition command_get_unique_name :: "env \<Rightarrow> string \<Rightarrow> string" where
  "command_get_unique_name ev dir = cleanup_string ev (unique_name_loop (split_str sep dir) [])"

text \<open>
  The unique name in the words of the specification: over the path segments in order,
  the stems of the segments that have a non-empty extension, concatenated, then sanitized.
\<close>

definition unique_name_spec :: "env \<Rightarrow> string \<Rightarrow> string" where
  "unique_name_spec ev dir =
     cleanup_string ev
       (concat (map (\<lambda>segment. fst (splitext segment))
                  (filter (\<lambda>segment. snd (splitext segment) \<noteq> []) (split_str sep dir))))"

text \<open>
  \<open>_read_layout_file\<close>: when the layout file exists (and its name, the value
  \<open>_verify_file\<close> returns, is a true value, that is a non-empty string), the lines of the
  file with every newline character removed; otherwise nothing is returned. The file that
  exists is taken to be readable: \<open>readlines\<close> of the environment gives its lines.
\<close>

definition read_layout_file :: "config \<Rightarrow> env \<Rightarrow> string \<Rightarrow> string list option" where
  "read_layout_file cfg ev dir =
     (case verify_file ev dir (DEFAULT_LAYOUT_FILE_NAME cfg) of
        None \<Rightarrow> None
      | Some f \<Rightarrow>
          if f \<noteq> [] then
            Some (map (filter (\<lambda>c. c \<noteq> CHR 0x0A))
                    (readlines ev (join_path dir (DEFAULT_LAYOUT_FILE_NAME cfg))))
          else None)"

subsection \<open>Construction\<close>

text \<open>
  \<open>GenericContainer.__init__\<close>, with the two attributes \<open>Package.__init__\<close> adds. The
  constructors' calls of the logger have no influence on the object built or on the
  exception raised and are left out here.
\<close>

definition container_init :: "config \<Rightarrow> env \<Rightarrow> container_kind \<Rightarrow> string \<Rightarrow> error + component" where
  "container_init cfg ev k branch_dir =
     (if \<not> is_valid_dir (container_type_id cfg k) branch_dir then Inl PyRevitUnknownFormatError
      else
        Inr (Container k
          \<lparr> directory = branch_dir,
            original_name = get_name branch_dir,
            name = get_alias ev (get_name branch_dir) (container_type_id cfg k),
            unique_name = container_get_unique_name ev branch_dir,
            library_path = get_library cfg branch_dir,
            icon_file = verify_file ev branch_dir (DEFAULT_ICON_FILE cfg),
            layout_list = read_layout_file cfg ev branch_dir,
            package_info = (if k = Package then Some (None, None) else None) \<rparr>
          []))"

text \<open>
  \<open>GenericCommand.__init__\<close>, with the two attributes \<open>ToggleButton.__init__\<close> adds
  after it. \<open>get_full_script_address\<close> joins the directory and the script file.
\<close>

definition get_full_script_address :: "string \<Rightarrow> string \<Rightarrow> string" where
  "get_full_script_address dir script = join_path dir script"

definition command_init :: "config \<Rightarrow> env \<Rightarrow> command_kind \<Rightarrow> string \<Rightarrow> error + component" where
  "command_init cfg ev k cmd_dir =
     (if \<not> is_valid_dir (command_type_id cfg k) cmd_dir then Inl PyRevitUnknownFormatError
      else
        (case verify_file ev cmd_dir (DEFAULT_SCRIPT_FILE cfg) of
           None \<Rightarrow> Inl PyRevitNoScriptFileError
         | Some script \<Rightarrow>
             Inr (Command k
               \<lparr> directory = cmd_dir,
                 original_name = get_name cmd_dir,
                 name = get_alias ev (get_name cmd_dir) (command_type_id cfg k),
                 unique_name = command_get_unique_name ev cmd_dir,
                 library_path = get_library cfg cmd_dir,
                 icon_file = verify_file ev cmd_dir (DEFAULT_ICON_FILE cfg),
                 script_file = script,
                 min_pyrevit_ver =
                   extract_param ev (get_full_script_address cmd_dir script)
                     (MIN_PYREVIT_VERSION_PARAM cfg),
                 min_revit_ver =
                   extract_param ev (get_full_script_address cmd_dir script)
                     (MIN_REVIT_VERSION_PARAM cfg),
                 doc_string =
                   extract_param ev (get_full_script_address cmd_dir script)
                     (DOCSTRING_PARAM cfg),
                 author =
                   extract_param ev (get_full_script_address cmd_dir script)
                     (AUTHOR_PARAM cfg),
                 search_paths = [get_library cfg cmd_dir],
                 toggle_icons =
                   (if k = ToggleButton
                    then Some (verify_file ev cmd_dir (DEFAULT_ON_ICON_FILE cfg),
                               verify_file ev cmd_dir (DEFAULT_OFF_ICON_FILE cfg))
                    else None) \<rparr>)))"

text \<open>
  \<open>add_component\<close> and \<open>get_components\<close>; only containers have them, so on a
  command the attribute lookup fails.
\<close>

fun add_component :: "component \<Rightarrow> component \<Rightarrow> error + component" where
  "add_component (Container k a cs) c = Inr (Container k a (cs @ [c]))"
| "add_component (Command k a) c = Inl AttributeError"

fun get_components :: "component \<Rightarrow> error + component list" where
  "get_components (Container k a cs) = Inr cs"
| "get_components (Command k a) = Inl AttributeError"

subsection \<open>The logger\<close>

text \<open>
  The logger is an output channel: a call appends one record. The state of a
  reconciliation is the child list together with the log written so far.
\<close>

datatype log_record = Debug string | Error string

subsection \<open>Layout reconciliation: \<open>_process_components_per_layout\<close>\<close>

text \<open>
  The inner \<open>for cmp_index, component in enumerate(self._sub_components)\<close> walks the live
  list by index: \<open>component\<close> is the element at \<open>cmp_index\<close> at the moment the index is
  reached. The loop has no \<open>break\<close>, so every index is visited. On a match the two
  reads \<open>self._sub_components[i_index]\<close> and \<open>self._sub_components[cmp_index]\<close> come
  first; the first of them raises \<open>IndexError\<close> when \<open>i_index\<close> is not an index of the
  list. The tuple assignment then stores the old element of \<open>cmp_index\<close> at \<open>i_index\<close>
  and the old element of \<open>i_index\<close> at \<open>cmp_index\<close>.
\<close>

function scan_components ::
  "string \<Rightarrow> nat \<Rightarrow> nat \<Rightarrow> component list \<Rightarrow> bool \<Rightarrow> error + (component list \<times> bool)" where
  "scan_components item i_index cmp_index cs item_found =
     (if cmp_index < length cs then
        (if comp_name (cs ! cmp_index) = item then
           (if i_index < length cs then
              scan_components item i_index (Suc cmp_index)
                (cs[i_index := cs ! cmp_index, cmp_index := cs ! i_index]) True
            else Inl IndexError)
         else scan_components item i_index (Suc cmp_index) cs item_found)
      else Inr (cs, item_found))"
  by pat_completeness auto
termination
  by (relation "measure (\<lambda>(item, i_index, cmp_index, cs, item_found). length cs - cmp_index)")
     auto

declare scan_components.simps [simp del]

text \<open>
  The outer \<open>for i_index, item in enumerate(self.layout_list)\<close>; the layout list is not
  changed by the loop. An item that no component matched is reported at debug level.
\<close>

fun layout_loop ::
  "nat \<Rightarrow> string list \<Rightarrow> component list \<Rightarrow> log_record list
     \<Rightarrow> error + (component list \<times> log_record list)" where
  "layout_loop i_index [] cs lg = Inr (cs, lg)"
| "layout_loop i_index (item # items) cs lg =
     (case scan_components item i_index 0 cs False of
        Inl e \<Rightarrow> Inl e
      | Inr (cs', item_found) \<Rightarrow>
          layout_loop (Suc i_index) items cs'
            (if \<not> item_found
             then lg @ [Debug (''Item listed in layout file is not available: '' @ item)]
             else lg))"

fun join_str :: "string \<Rightarrow> string list \<Rightarrow> string" where
  "join_str s [] = []"
| "join_str s [x] = x"
| "join_str s (x # y # ys) = x @ s @ join_str s (y # ys)"

definition list_repr :: "(component \<Rightarrow> string) \<Rightarrow> component list \<Rightarrow> string" where
  "list_repr r cs = ''['' @ join_str '', '' (map r cs) @ '']''"

text \<open>
  \<open>self.layout_list and self._sub_components\<close> is true when the layout list is neither
  \<open>None\<close> nor empty and there is at least one sub-component. The last debug line
  prints the list, that is the \<open>__repr__\<close> of each component.
\<close>

definition process_components_per_layout ::
  "config \<Rightarrow> string list option \<Rightarrow> component list \<Rightarrow> log_record list
     \<Rightarrow> error + (component list \<times> log_record list)" where
  "process_components_per_layout cfg layout cs lg =
     (case layout of
        None \<Rightarrow> Inr (cs, lg)
      | Some items \<Rightarrow>
          if items \<noteq> [] \<and> cs \<noteq> [] then
            (case layout_loop 0 items cs
                    (lg @ [Debug ''Reordering components per layout file...'']) of
               Inl e \<Rightarrow> Inl e
             | Inr (cs', lg') \<Rightarrow>
                 Inr (cs', lg' @ [Debug (''Reordered sub-component list is: '' @ list_repr (repr cfg) cs')]))
          else Inr (cs, lg))"

text \<open>
  \<open>__iter__\<close>: reconcile, then hand out the sub-components. The result is the sequence
  the iterator yields, the container with its reordered list, and the log. A command has
  no \<open>__iter__\<close>.
\<close>

fun iter_container ::
  "config \<Rightarrow> component \<Rightarrow> log_record list
     \<Rightarrow> error + (component list \<times> component \<times> log_record list)" where
  "iter_container cfg (Container k a cs) lg =
     (case process_components_per_layout cfg (layout_list a) cs lg of
        Inl e \<Rightarrow> Inl e
      | Inr (cs', lg') \<Rightarrow> Inr (cs', Container k a cs', lg'))"
| "iter_container cfg (Command k a) lg = Inl TypeError"

text \<open>
  Calling \<open>__iter__\<close> twice in a row, with nothing in between: the two sequences
  handed out.
\<close>

definition iter_twice ::
  "config \<Rightarrow> component \<Rightarrow> log_record list \<Rightarrow> error + (component list \<times> component list)" where
  "iter_twice cfg c lg =
     (case iter_container cfg c lg of
        Inl e \<Rightarrow> Inl e
      | Inr (ys, c', lg') \<Rightarrow>
          (case iter_container cfg c' lg' of
             Inl e \<Rightarrow> Inl e
           | Inr (ys', c'', lg'') \<Rightarrow> Inr (ys, ys')))"

subsection \<open>Sample values\<close>

text \<open>
  Modelled from the spec: the constants of \<open>config.py\<close>, which is not among the sources.
  The suffixes \<open>.panel\<close> and \<open>.pushbutton\<close> are the ones the spec names, \<open>.package\<close>
  and \<open>.tab\<close> the ones of the module's docstrings, \<open>Lib\<close> the library sub-path of the
  spec; the remaining values are sample values. They are used only to run the functions
  on concrete inputs; every general theorem below holds for any \<open>config\<close>.
\<close>

definition example_config :: config where
  "example_config =
     \<lparr> PACKAGE_POSTFIX = ''.package'',
       TAB_POSTFIX = ''.tab'',
       PANEL_POSTFIX = ''.panel'',
       LINK_BUTTON_POSTFIX = ''.linkbutton'',
       PUSH_BUTTON_POSTFIX = ''.pushbutton'',
       TOGGLE_BUTTON_POSTFIX = ''.toggle'',
       PULLDOWN_BUTTON_POSTFIX = ''.pulldown'',
       STACKTHREE_BUTTON_POSTFIX = ''.stack3'',
       STACKTWO_BUTTON_POSTFIX = ''.stack2'',
       SPLIT_BUTTON_POSTFIX = ''.splitbutton'',
       SPLITPUSH_BUTTON_POSTFIX = ''.splitpushbutton'',
       DEFAULT_ICON_FILE = ''icon.png'',
       DEFAULT_SCRIPT_FILE = ''script.py'',
       DEFAULT_ON_ICON_FILE = ''on.png'',
       DEFAULT_OFF_ICON_FILE = ''off.png'',
       DEFAULT_LAYOUT_FILE_NAME = ''_layout'',
       DOCSTRING_PARAM = ''__doc__'',
       AUTHOR_PARAM = ''__author__'',
       COMPONENT_LIB_NAME = ''Lib'',
       MIN_REVIT_VERSION_PARAM = ''__min_req_revit_ver__'',
       MIN_PYREVIT_VERSION_PARAM = ''__min_req_pyrevit_ver__'' \<rparr>"

text \<open>
  Modelled from the spec: a sample environment for the collaborators that are not among
  the sources. No alias is configured, one push button of the file system has its script
  file, no directory has a layout or an icon file, scripts carry no parameters, and
  \<open>cleanup_string\<close> strips spaces and some punctuation, as the spec says of the
  sanitization.
\<close>

definition example_env :: env where
  "example_env =
     \<lparr> get_alias = (\<lambda>original_name type_id. original_name),
       path_exists = (\<lambda>p. p \<in> set
          [''/pyRevit.package/pyRevit.tab/Edit.panel/Flip doors.pushbutton/script.py'']),
       readlines = (\<lambda>p. []),
       extract_param = (\<lambda>p param. None),
       cleanup_string = filter (\<lambda>c. c \<notin> set '' .-()'') \<rparr>"

text \<open>
  A panel of the tab \<open>/pyRevit.package/pyRevit.tab\<close> with a given original name and
  display name, and a tab with a given layout list and children.
\<close>

definition sample_panel :: "string \<Rightarrow> string \<Rightarrow> component" where
  "sample_panel orig disp =
     Container Panel
       \<lparr> directory = ''/pyRevit.package/pyRevit.tab/'' @ orig @ ''.panel'',
         original_name = orig,
         name = disp,
         unique_name = ''pyRevitpyRevit'' @ orig,
         library_path = ''/pyRevit.package/pyRevit.tab/'' @ orig @ ''.panel/Lib'',
         icon_file = None,
         layout_list = None,
         package_info = None \<rparr>
       []"

definition sample_tab :: "string list option \<Rightarrow> component list \<Rightarrow> component" where
  "sample_tab layout cs =
     Container Tab
       \<lparr> directory = ''/pyRevit.package/pyRevit.tab'',
         original_name = ''pyRevit'',
         name = ''pyRevit'',
         unique_name = ''pyRevitpyRevit'',
         library_path = ''/pyRevit.package/pyRevit.tab/Lib'',
         icon_file = None,
         layout_list = layout,
         package_info = None \<rparr>
       cs"

subsection \<open>Reconciliation permutes the children\<close>

text \<open>
  A pass over the list only swaps elements, so the children after a reconciliation are
  the children before it, as a multiset. \<open>has_commands\<close> below recurses into the
  reordered list, and its termination rests on this.
\<close>

lemma scan_mset:
  "scan_components item i j cs f = Inr (cs', f') \<Longrightarrow> mset cs' = mset cs"
proof (induction item i j cs f rule: scan_components.induct)
  case (1 item i j cs f)
  show ?case
  proof (cases "j < length cs")
    case False
    with 1(3) show ?thesis by (subst (asm) scan_components.simps) simp
  next
    case True
    show ?thesis
    proof (cases "comp_name (cs ! j) = item")
      case False
      with True 1(3) have "scan_components item i (Suc j) cs f = Inr (cs', f')"
        by (subst (asm) scan_components.simps) simp
      with 1(2) True False show ?thesis by simp
    next
      case m: True
      have ir: "i < length cs"
        using 1(3) True m by (subst (asm) scan_components.simps) (simp split: if_splits)
      with True m 1(3)
      have "scan_components item i (Suc j) (cs[i := cs ! j, j := cs ! i]) True = Inr (cs', f')"
        by (subst (asm) scan_components.simps) simp
      with 1(1) True m ir have "mset cs' = mset (cs[i := cs ! j, j := cs ! i])" by simp
      also have "\<dots> = mset cs" using True ir by (simp add: mset_swap)
      finally show ?thesis .
    qed
  qed
qed

lemma layout_loop_mset:
  "layout_loop i items cs lg = Inr (cs', lg') \<Longrightarrow> mset cs' = mset cs"
proof (induction items arbitrary: i cs lg)
  case Nil
  then show ?case by simp
next
  case (Cons item items)
  from Cons.prems obtain cs1 f1 where s: "scan_components item i 0 cs False = Inr (cs1, f1)"
    by (auto split: sum.splits)
  with Cons.prems have "layout_loop (Suc i) items cs1
      (if \<not> f1 then lg @ [Debug (''Item listed in layout file is not available: '' @ item)]
       else lg) = Inr (cs', lg')"
    by simp
  then have "mset cs' = mset cs1" by (rule Cons.IH)
  with scan_mset [OF s] show ?case by simp
qed

lemma process_mset:
  "process_components_per_layout cfg layout cs lg = Inr (cs', lg') \<Longrightarrow> mset cs' = mset cs"
  unfolding process_components_per_layout_def
  by (auto split: option.splits if_splits sum.splits dest: layout_loop_mset)

lemma size_list_mset:
  "mset xs = mset ys \<Longrightarrow> size_list f xs = size_list f ys"
proof -
  assume a: "mset xs = mset ys"
  have "\<And>zs. size_list f zs = sum_mset (image_mset f (mset zs)) + size (mset zs)"
    by (induct_tac zs) auto
  with a mset_eq_length [OF a] show ?thesis by simp
qed

subsection \<open>\<open>has_commands\<close>\<close>

text \<open>
  Only \<open>Tab\<close> and \<open>Panel\<close> define \<open>has_commands\<close>; on any other component the call
  raises \<open>AttributeError\<close>. \<open>Tab.has_commands\<close> iterates over \<open>self\<close>, which
  reconciles the tab's own list first, and asks each child in turn, returning at the first
  that answers true; \<open>any_has_commands\<close> is that loop. The result carries the component
  as the call leaves it and the log.
\<close>

function has_commands ::
    "config \<Rightarrow> component \<Rightarrow> log_record list \<Rightarrow> error + (bool \<times> component \<times> log_record list)"
  and any_has_commands ::
    "config \<Rightarrow> component list \<Rightarrow> log_record list
       \<Rightarrow> error + (bool \<times> component list \<times> log_record list)" where
  "has_commands cfg (Container k a cs) lg =
     (if k = Tab then
        (case process_components_per_layout cfg (layout_list a) cs lg of
           Inl e \<Rightarrow> Inl e
         | Inr (cs', lg') \<Rightarrow>
             (case any_has_commands cfg cs' lg' of
                Inl e \<Rightarrow> Inl e
              | Inr (b, cs'', lg'') \<Rightarrow> Inr (b, Container k a cs'', lg'')))
      else if k = Panel then Inr (length cs > 0, Container k a cs, lg)
      else Inl AttributeError)"
| "has_commands cfg (Command k a) lg = Inl AttributeError"
| "any_has_commands cfg [] lg = Inr (False, [], lg)"
| "any_has_commands cfg (p # ps) lg =
     (case has_commands cfg p lg of
        Inl e \<Rightarrow> Inl e
      | Inr (b, p', lg') \<Rightarrow>
          if b then Inr (True, p' # ps, lg')
          else (case any_has_commands cfg ps lg' of
                  Inl e \<Rightarrow> Inl e
                | Inr (b', ps', lg'') \<Rightarrow> Inr (b', p' # ps', lg'')))"
  by pat_completeness auto
termination
proof (relation "measure (\<lambda>x. case x of Inl (cfg, c, lg) \<Rightarrow> size c
                                      | Inr (cfg, cs, lg) \<Rightarrow> size_list size cs)")
  show "wf (measure (\<lambda>x. case x of Inl (cfg, c, lg) \<Rightarrow> size c
                                      | Inr (cfg, cs, lg) \<Rightarrow> size_list size cs))"
    by simp
next
  fix cfg k and a :: container_attrs and cs lg x2 x y
  assume "k = Tab"
    and "process_components_per_layout cfg (layout_list a) cs lg = Inr x2"
    and "(x, y) = x2"
  then have "mset x = mset cs" using process_mset by metis
  then have "size_list size x = size_list size cs" by (rule size_list_mset)
  then show "(Inr (cfg, x, y), Inl (cfg, Container k a cs, lg))
       \<in> measure (\<lambda>x. case x of Inl (cfg, c, lg) \<Rightarrow> size c
                                      | Inr (cfg, cs, lg) \<Rightarrow> size_list size cs)"
    by simp
qed auto

text \<open>
  A layout entry is \<^emph>\<open>placed\<close> when, if some child bears its name, the child at the
  entry's own position does. \<open>placed i items cs\<close> says so for the entries \<open>items\<close>
  standing at positions \<open>i\<close>, \<open>i + 1\<close>, ... of the layout.
\<close>

definition placed :: "nat \<Rightarrow> string list \<Rightarrow> component list \<Rightarrow> bool" where
  "placed i items cs =
     (\<forall>k < length items. items ! k \<in> comp_name ` set cs
         \<longrightarrow> i + k < length cs \<and> comp_name (cs ! (i + k)) = items ! k)"

section \<open>Properties of one scan\<close>

lemma scan_no_match:
  "(\<forall>k. j \<le> k \<and> k < length cs \<longrightarrow> comp_name (cs ! k) \<noteq> item)
   \<Longrightarrow> scan_components item i j cs f = Inr (cs, f)"
proof (induction item i j cs f rule: scan_components.induct)
  case (1 item i j cs f)
  show ?case
  proof (cases "j < length cs")
    case True
    with 1 show ?thesis
      by (subst scan_components.simps) simp
  next
    case False
    then show ?thesis by (subst scan_components.simps) simp
  qed
qed

lemma scan_out_of_range:
  "length cs \<le> i \<Longrightarrow> j \<le> k \<Longrightarrow> k < length cs \<Longrightarrow> comp_name (cs ! k) = item
   \<Longrightarrow> scan_components item i j cs f = Inl IndexError"
proof (induction item i j cs f rule: scan_components.induct)
  case (1 item i j cs f)
  from 1(4,5) have jl: "j < length cs" by simp
  show ?case
  proof (cases "comp_name (cs ! j) = item")
    case True
    with jl 1(3) show ?thesis by (subst scan_components.simps) simp
  next
    case False
    with 1(4,6) have "Suc j \<le> k" by (cases "j = k") auto
    with 1(2) jl False 1(3,5,6) have "scan_components item i (Suc j) cs f = Inl IndexError"
      by simp
    with jl False show ?thesis by (subst scan_components.simps) simp
  qed
qed

lemma scan_only_self:
  "i < length cs \<Longrightarrow> (\<forall>k. j \<le> k \<and> k < length cs \<and> k \<noteq> i \<longrightarrow> comp_name (cs ! k) \<noteq> item)
   \<Longrightarrow> scan_components item i j cs f = Inr (cs, f \<or> (j \<le> i \<and> comp_name (cs ! i) = item))"
proof (induction item i j cs f rule: scan_components.induct)
  case (1 item i j cs f)
  show ?case
  proof (cases "j < length cs")
    case False
    with 1(3) show ?thesis by (subst scan_components.simps) auto
  next
    case True
    show ?thesis
    proof (cases "comp_name (cs ! j) = item")
      case False
      have "scan_components item i (Suc j) cs f
              = Inr (cs, f \<or> (Suc j \<le> i \<and> comp_name (cs ! i) = item))"
        using 1(2) [OF True False 1(3)] 1(4) by simp
      moreover have "(Suc j \<le> i \<and> comp_name (cs ! i) = item) = (j \<le> i \<and> comp_name (cs ! i) = item)"
        using False by (cases "j = i") auto
      ultimately show ?thesis using True False by (subst scan_components.simps) simp
    next
      case m: True
      with 1(4) True have ji: "j = i" by auto
      have sw: "cs[i := cs ! j, j := cs ! i] = cs" using ji by simp
      have "scan_components item i (Suc j) (cs[i := cs ! j, j := cs ! i]) True
              = Inr (cs[i := cs ! j, j := cs ! i],
                     True \<or> (Suc j \<le> i \<and> comp_name ((cs[i := cs ! j, j := cs ! i]) ! i) = item))"
        apply (rule 1(1) [OF True m 1(3)])
        using 1(3,4) unfolding sw by auto
      then show ?thesis using True m 1(3) ji unfolding sw by (subst scan_components.simps) simp
    qed
  qed
qed


lemma distinct_names_nth:
  "distinct (map comp_name cs) \<Longrightarrow> a < length cs \<Longrightarrow> b < length cs
   \<Longrightarrow> comp_name (cs ! a) = comp_name (cs ! b) \<Longrightarrow> a = b"
  by (metis distinct_conv_nth length_map nth_map)

lemma scan_unique_match:
  "distinct (map comp_name cs) \<Longrightarrow> i < length cs \<Longrightarrow> p < length cs
   \<Longrightarrow> comp_name (cs ! p) = item \<Longrightarrow> j \<le> p
   \<Longrightarrow> scan_components item i j cs f = Inr (cs[i := cs ! p, p := cs ! i], True)"
proof (induction item i j cs f rule: scan_components.induct)
  case (1 item i j cs f)
  from 1(5,7) have jl: "j < length cs" by simp
  show ?case
  proof (cases "comp_name (cs ! j) = item")
    case False
    with 1(6,7) have "Suc j \<le> p" by (cases "j = p") auto
    with 1(2) [OF jl False 1(3,4,5,6)]
    have "scan_components item i (Suc j) cs f = Inr (cs[i := cs ! p, p := cs ! i], True)" .
    with jl False show ?thesis by (subst scan_components.simps) simp
  next
    case m: True
    have jp: "j = p" using distinct_names_nth [OF 1(3) jl 1(5)] m 1(6) by simp
    let ?cs1 = "cs[i := cs ! p, p := cs ! i]"
    have others: "\<forall>k. Suc p \<le> k \<and> k < length ?cs1 \<and> k \<noteq> i \<longrightarrow> comp_name (?cs1 ! k) \<noteq> item"
    proof (intro allI impI)
      fix k assume k: "Suc p \<le> k \<and> k < length ?cs1 \<and> k \<noteq> i"
      then have "?cs1 ! k = cs ! k" by simp
      moreover have "comp_name (cs ! k) \<noteq> item"
        using distinct_names_nth [OF 1(3) _ 1(5), of k] k 1(6) by auto
      ultimately show "comp_name (?cs1 ! k) \<noteq> item" by simp
    qed
    have il: "i < length ?cs1" using 1(4) by simp
    have "scan_components item i (Suc p) ?cs1 True
            = Inr (?cs1, True \<or> (Suc p \<le> i \<and> comp_name (?cs1 ! i) = item))"
      by (rule scan_only_self [OF il others])
    then show ?thesis using jl m 1(4) jp by (subst scan_components.simps) simp
  qed
qed

lemma scan_last_match:
  "i < length cs \<Longrightarrow> j \<le> q \<Longrightarrow> q < length cs \<Longrightarrow> q \<noteq> i \<Longrightarrow> comp_name (cs ! q) = item
   \<Longrightarrow> (\<forall>k. q < k \<and> k < length cs \<and> k \<noteq> i \<longrightarrow> comp_name (cs ! k) \<noteq> item)
   \<Longrightarrow> \<exists>cs'. scan_components item i j cs f = Inr (cs', True) \<and> cs' ! i = cs ! q"
proof (induction item i j cs f rule: scan_components.induct)
  case (1 item i j cs f)
  from 1(4,5) have jl: "j < length cs" by simp
  show ?case
  proof (cases "comp_name (cs ! j) = item")
    case False
    with 1(4,7) have "Suc j \<le> q" by (cases "j = q") auto
    from 1(2) [OF jl False 1(3) this 1(5,6,7,8)] jl False
    show ?thesis by (subst scan_components.simps) simp
  next
    case m: True
    let ?cs1 = "cs[i := cs ! j, j := cs ! i]"
    show ?thesis
    proof (cases "j = q")
      case True
      have others: "\<forall>k. Suc j \<le> k \<and> k < length ?cs1 \<and> k \<noteq> i \<longrightarrow> comp_name (?cs1 ! k) \<noteq> item"
        using 1(8) True by auto
      have il: "i < length ?cs1" using 1(3) by simp
      have "scan_components item i (Suc j) ?cs1 True
              = Inr (?cs1, True \<or> (Suc j \<le> i \<and> comp_name (?cs1 ! i) = item))"
        by (rule scan_only_self [OF il others])
      moreover have "?cs1 ! i = cs ! q" using True 1(3,6) by simp
      ultimately show ?thesis using jl m 1(3) by (subst scan_components.simps) simp
    next
      case False
      with 1(4) have sj: "Suc j \<le> q" by simp
      have il: "i < length ?cs1" and ql: "q < length ?cs1" using 1(3,5) by simp_all
      have q1: "?cs1 ! q = cs ! q" using False 1(6) by simp
      have nm: "comp_name (?cs1 ! q) = item" using q1 1(7) by simp
      have others: "\<forall>k. q < k \<and> k < length ?cs1 \<and> k \<noteq> i \<longrightarrow> comp_name (?cs1 ! k) \<noteq> item"
        using 1(8) sj by auto
      from 1(1) [OF jl m 1(3) il sj ql 1(6) nm others]
      obtain cs' where "scan_components item i (Suc j) ?cs1 True = Inr (cs', True)"
        and "cs' ! i = ?cs1 ! q" by blast
      then show ?thesis using jl m 1(3) q1 by (subst scan_components.simps) simp
    qed
  qed
qed

lemma scan_in_range:
  "i < length cs \<Longrightarrow> \<exists>cs' f'. scan_components item i j cs f = Inr (cs', f')"
proof (induction item i j cs f rule: scan_components.induct)
  case (1 item i j cs f)
  show ?case
  proof (cases "j < length cs")
    case False
    then show ?thesis by (subst scan_components.simps) simp
  next
    case True
    show ?thesis
    proof (cases "comp_name (cs ! j) = item")
      case False
      from 1(2) [OF True False 1(3)] True False show ?thesis
        by (subst scan_components.simps) simp
    next
      case m: True
      have "i < length (cs[i := cs ! j, j := cs ! i])" using 1(3) by simp
      from 1(1) [OF True m 1(3) this] True m 1(3) show ?thesis
        by (subst scan_components.simps) simp
    qed
  qed
qed

section \<open>Properties of a whole reconciliation\<close>

lemma mset_distinct_names:
  "mset cs' = mset cs \<Longrightarrow> distinct (map comp_name cs') = distinct (map comp_name cs)"
proof -
  assume "mset cs' = mset cs"
  then have "mset (map comp_name cs') = mset (map comp_name cs)" by simp
  then show ?thesis by (rule mset_eq_imp_distinct_iff)
qed

lemma mset_names:
  "mset cs' = mset cs \<Longrightarrow> comp_name ` set cs' = comp_name ` set cs"
proof -
  assume "mset cs' = mset cs"
  then have "set cs' = set cs" by (rule mset_eq_setD)
  then show ?thesis by (rule arg_cong)
qed

lemma layout_loop_places:
  "distinct (map comp_name cs) \<Longrightarrow> distinct (pre @ items) \<Longrightarrow> placed 0 pre cs
   \<Longrightarrow> layout_loop (length pre) items cs lg = Inr (cs', lg')
   \<Longrightarrow> placed 0 (pre @ items) cs'"
proof (induction items arbitrary: pre cs lg)
  case Nil
  then show ?case by simp
next
  case (Cons item items)
  let ?i = "length pre"
  from Cons.prems(4) obtain cs1 f1 where s: "scan_components item ?i 0 cs False = Inr (cs1, f1)"
    by (auto split: sum.splits)
  with Cons.prems(4) obtain lg1 where
    rest: "layout_loop (length (pre @ [item])) items cs1 lg1 = Inr (cs', lg')"
    by auto
  have m1: "mset cs1 = mset cs" by (rule scan_mset [OF s])
  have d1: "distinct (map comp_name cs1)"
    using mset_distinct_names [OF m1] Cons.prems(1) by simp
  have d2: "distinct ((pre @ [item]) @ items)" using Cons.prems(2) by simp
  have p1: "placed 0 (pre @ [item]) cs1"
  proof (cases "item \<in> comp_name ` set cs")
    case False
    then have "\<forall>k. 0 \<le> k \<and> k < length cs \<longrightarrow> comp_name (cs ! k) \<noteq> item"
      by (metis image_eqI nth_mem)
    from scan_no_match [OF this] s have "cs1 = cs" by simp
    with False Cons.prems(3) show ?thesis
      unfolding placed_def by (auto simp: nth_append less_Suc_eq)
  next
    case True
    then obtain p where p: "p < length cs" "comp_name (cs ! p) = item"
      by (auto simp: in_set_conv_nth)
    have il: "?i < length cs"
    proof (rule ccontr)
      assume "\<not> ?i < length cs"
      then have "length cs \<le> ?i" by simp
      from scan_out_of_range [OF this _ p] s show False by simp
    qed
    from scan_unique_match [OF Cons.prems(1) il p] s
    have c1: "cs1 = cs[?i := cs ! p, p := cs ! ?i]" by simp
    show ?thesis unfolding placed_def
    proof (intro allI impI)
      fix k assume kl: "k < length (pre @ [item])"
        and kin: "(pre @ [item]) ! k \<in> comp_name ` set cs1"
      show "0 + k < length cs1 \<and> comp_name (cs1 ! (0 + k)) = (pre @ [item]) ! k"
      proof (cases "k < ?i")
        case False
        with kl have "k = ?i" by simp
        then show ?thesis using c1 il p by (auto simp: nth_list_update)
      next
        case kp: True
        then have pk: "(pre @ [item]) ! k = pre ! k" by (simp add: nth_append)
        from kin have "pre ! k \<in> comp_name ` set cs" using mset_names [OF m1] pk by simp
        with Cons.prems(3) kp have klen: "k < length cs" and kn: "comp_name (cs ! k) = pre ! k"
          unfolding placed_def by auto
        have "pre ! k \<noteq> item" using Cons.prems(2) kp by (auto simp: in_set_conv_nth)
        with kn p have "k \<noteq> p" by auto
        with kp have "cs1 ! k = cs ! k" using c1 by simp
        with klen kn pk c1 show ?thesis by simp
      qed
    qed
  qed
  from Cons.IH [OF d1 d2 p1 rest] show ?case by simp
qed

lemma layout_loop_fixed:
  "distinct (map comp_name cs) \<Longrightarrow> placed i items cs
   \<Longrightarrow> \<exists>lg'. layout_loop i items cs lg = Inr (cs, lg')"
proof (induction items arbitrary: i lg)
  case Nil
  then show ?case by simp
next
  case (Cons item items)
  have pl: "placed (Suc i) items cs"
    using Cons.prems(2) unfolding placed_def by force
  have "\<exists>f1. scan_components item i 0 cs False = Inr (cs, f1)"
  proof (cases "item \<in> comp_name ` set cs")
    case False
    then have "\<forall>k. 0 \<le> k \<and> k < length cs \<longrightarrow> comp_name (cs ! k) \<noteq> item"
      by (metis image_eqI nth_mem)
    from scan_no_match [OF this] show ?thesis by blast
  next
    case True
    with Cons.prems(2) have il: "i < length cs" and im: "comp_name (cs ! i) = item"
      unfolding placed_def by force+
    have "\<forall>k. 0 \<le> k \<and> k < length cs \<and> k \<noteq> i \<longrightarrow> comp_name (cs ! k) \<noteq> item"
      using distinct_names_nth [OF Cons.prems(1) _ il] im by auto
    from scan_only_self [OF il this] show ?thesis by blast
  qed
  then obtain f1 where "scan_components item i 0 cs False = Inr (cs, f1)" ..
  with Cons.IH [OF Cons.prems(1) pl] show ?case by simp
qed

lemma layout_loop_idem:
  assumes "distinct (map comp_name cs)" and "distinct items"
    and "layout_loop 0 items cs lg = Inr (cs', lg')"
  shows "\<exists>lg''. layout_loop 0 items cs' lg2 = Inr (cs', lg'')"
proof -
  have "placed 0 ([] @ items) cs'"
    by (rule layout_loop_places [where pre = "[]" and cs = cs and lg = lg and lg' = lg'])
       (use assms in \<open>simp_all add: placed_def\<close>)
  moreover have "distinct (map comp_name cs')"
    using mset_distinct_names [OF layout_loop_mset [OF assms(3)]] assms(1) by simp
  ultimately show ?thesis using layout_loop_fixed by simp
qed

lemma process_idem:
  assumes "distinct (map comp_name cs)"
    and "case layout of None \<Rightarrow> True | Some items \<Rightarrow> distinct items"
    and "process_components_per_layout cfg layout cs lg = Inr (cs', lg')"
  shows "\<exists>lg''. process_components_per_layout cfg layout cs' lg2 = Inr (cs', lg'')"
proof (cases layout)
  case None
  then show ?thesis by (simp add: process_components_per_layout_def)
next
  case (Some items)
  show ?thesis
  proof (cases "items \<noteq> [] \<and> cs \<noteq> []")
    case False
    with Some assms(3) have "cs' = cs"
      by (auto simp: process_components_per_layout_def)
    with False Some show ?thesis by (auto simp: process_components_per_layout_def)
  next
    case True
    with Some assms(3) obtain lg1 where
      l: "layout_loop 0 items cs (lg @ [Debug ''Reordering components per layout file...'']) = Inr (cs', lg1)"
      by (auto simp: process_components_per_layout_def split: sum.splits)
    from assms(2) Some have "distinct items" by simp
    from layout_loop_idem [OF assms(1) this l]
    obtain lg'' where "layout_loop 0 items cs' (lg2 @ [Debug ''Reordering components per layout file...'']) = Inr (cs', lg'')"
      by blast
    then show ?thesis using Some by (auto simp: process_components_per_layout_def)
  qed
qed

text \<open>
  A layout list that is no longer than the child list never raises: every position it
  reaches is an index of the list.
\<close>

lemma scan_length:
  "scan_components item i j cs f = Inr (cs', f') \<Longrightarrow> length cs' = length cs"
  using scan_mset mset_eq_length by blast

lemma layout_loop_in_range:
  "i + length items \<le> length cs \<Longrightarrow> \<exists>cs' lg'. layout_loop i items cs lg = Inr (cs', lg')"
proof (induction items arbitrary: i cs lg)
  case Nil
  then show ?case by simp
next
  case (Cons item items)
  then have "i < length cs" by simp
  from scan_in_range [OF this] obtain cs1 f1 where
    s: "scan_components item i 0 cs False = Inr (cs1, f1)" by blast
  with Cons.prems have "Suc i + length items \<le> length cs1" using scan_length [OF s] by simp
  from Cons.IH [OF this] s show ?case by simp
qed

lemma process_in_range:
  "(case layout of None \<Rightarrow> True | Some items \<Rightarrow> length items \<le> length cs)
   \<Longrightarrow> \<exists>cs' lg'. process_components_per_layout cfg layout cs lg = Inr (cs', lg')"
proof (cases layout)
  case None
  then show ?thesis by (simp add: process_components_per_layout_def)
next
  case (Some items)
  assume "case layout of None \<Rightarrow> True | Some items \<Rightarrow> length items \<le> length cs"
  with Some have "0 + length items \<le> length cs" by simp
  from layout_loop_in_range [OF this]
  obtain cs' lg' where
    "layout_loop 0 items cs (lg @ [Debug ''Reordering components per layout file...''])
       = Inr (cs', lg')" by blast
  with Some show ?thesis by (simp add: process_components_per_layout_def)
qed

section \<open>Properties of the string and path functions\<close>

lemma endswith_suffix: "endswith s suf = suffix suf s"
proof
  assume "endswith s suf"
  then have "s = take (length s - length suf) s @ suf"
    by (metis append_take_drop_id endswith_def)
  then show "suffix suf s" by (rule suffixI)
next
  assume "suffix suf s"
  then obtain p where "s = p @ suf" by (rule suffixE)
  then show "endswith s suf" by (simp add: endswith_def)
qed










lemma unique_name_loop_eq:
  "unique_name_loop segs uname =
     uname @ concat (map (\<lambda>segment. fst (splitext segment))
                  (filter (\<lambda>segment. snd (splitext segment) \<noteq> []) segs))"
  by (induction segs arbitrary: uname) (auto split: prod.splits)

section \<open>The claims on layout reconciliation\<close>

text \<open>
  C1. The claim: layout entries at positions beyond the number of children are ignored and
  reconciliation completes without error, also when such an entry bears the name of a
  child. The code does not do so: with the layout \<open>["A", "B"]\<close> and the single child
  \<open>B\<close>, the entry at position 1 matches the child at index 0, and reading
  \<open>self._sub_components[1]\<close> raises \<open>IndexError\<close>.
\<close>

theorem C1_matched_entry_beyond_children_raises:
  "process_components_per_layout example_config (Some [''A'', ''B''])
     [sample_panel ''B'' ''B''] [] = Inl IndexError"
  by (simp add: process_components_per_layout_def scan_components.simps sample_panel_def)

text \<open>
  C2. The claim: when two children share a display name and a layout entry equals it, the
  first matching child is swapped into the entry's position. It fails for the layout
  \<open>["A"]\<close> and two children named \<open>A\<close>: the scan does not stop at the first match, the
  second child is swapped in after it, and the first child ends at index 1.
\<close>

theorem C2_first_match_counterexample:
  "map_sum id fst
     (process_components_per_layout example_config (Some [''A''])
        [sample_panel ''A'' ''A'', sample_panel ''A2'' ''A''] [])
     = Inr [sample_panel ''A2'' ''A'', sample_panel ''A'' ''A'']
   \<and> sample_panel ''A'' ''A'' \<noteq> sample_panel ''A2'' ''A''"
  by (simp add: process_components_per_layout_def scan_components.simps sample_panel_def)

text \<open>
  C2, as amended: the scan for the entry at position \<open>i\<close> (an index of the child list)
  swaps at every match, so the child it leaves at position \<open>i\<close> is the one that stood at
  the last matching index other than \<open>i\<close>: the last match wins.
\<close>

theorem C2_last_match_wins:
  assumes "i < length cs" and "q < length cs" and "q \<noteq> i"
    and "comp_name (cs ! q) = item"
    and "\<forall>k. q < k \<and> k < length cs \<and> k \<noteq> i \<longrightarrow> comp_name (cs ! k) \<noteq> item"
  shows "\<exists>cs'. scan_components item i 0 cs False = Inr (cs', True) \<and> cs' ! i = cs ! q"
  using scan_last_match [OF assms(1) _ assms(2,3,4,5), of 0] by simp

theorem C2_last_match_wins_witness:
  "\<exists>cs'. scan_components ''A'' 0 0 [sample_panel ''A'' ''A'', sample_panel ''A2'' ''A''] False
            = Inr (cs', True)
         \<and> cs' ! 0 = [sample_panel ''A'' ''A'', sample_panel ''A2'' ''A''] ! 1"
  using C2_last_match_wins [of 0 "[sample_panel ''A'' ''A'', sample_panel ''A2'' ''A'']" 1 "''A''"]
  by (simp add: sample_panel_def)

text \<open>
  C3. The claim: iterating a container twice, with no \<open>add_component\<close> in between,
  hands out the children in the same order both times. It fails when two children share a
  display name (layout \<open>["A"]\<close>: the two children named \<open>A\<close> change places at every
  iteration) and when the layout repeats an entry (layout \<open>["A", "A", "A"]\<close> over the
  children \<open>A\<close>, \<open>X\<close>, \<open>Y\<close>: the first iteration gives \<open>X, Y, A\<close>, the second
  \<open>Y, X, A\<close>).
\<close>

theorem C3_iterating_twice_counterexample:
  "iter_twice example_config
     (sample_tab (Some [''A'']) [sample_panel ''A'' ''A'', sample_panel ''A2'' ''A'']) []
     = Inr ([sample_panel ''A2'' ''A'', sample_panel ''A'' ''A''],
            [sample_panel ''A'' ''A'', sample_panel ''A2'' ''A''])
   \<and> iter_twice example_config
     (sample_tab (Some [''A'', ''A'', ''A''])
        [sample_panel ''A'' ''A'', sample_panel ''X'' ''X'', sample_panel ''Y'' ''Y'']) []
     = Inr ([sample_panel ''X'' ''X'', sample_panel ''Y'' ''Y'', sample_panel ''A'' ''A''],
            [sample_panel ''Y'' ''Y'', sample_panel ''X'' ''X'', sample_panel ''A'' ''A''])"
  by (simp add: iter_twice_def sample_tab_def process_components_per_layout_def
        scan_components.simps sample_panel_def)

text \<open>
  C3, as amended: when the children's display names are pairwise distinct and the layout
  list has no repeated entry, and the first iteration completes, the second iteration
  completes too and hands out the same sequence.
\<close>

theorem C3_iterating_twice_same_order:
  assumes "iter_container cfg (Container k a cs) lg = Inr (ys, c', lg')"
    and "distinct (map comp_name cs)"
    and "case layout_list a of None \<Rightarrow> True | Some items \<Rightarrow> distinct items"
  shows "iter_twice cfg (Container k a cs) lg = Inr (ys, ys)"
proof -
  from assms(1) have p: "process_components_per_layout cfg (layout_list a) cs lg = Inr (ys, lg')"
    and c': "c' = Container k a ys"
    by (auto split: sum.splits)
  from process_idem [OF assms(2,3) p, of lg']
  obtain lg'' where "process_components_per_layout cfg (layout_list a) ys lg' = Inr (ys, lg'')"
    by blast
  with p show ?thesis by (simp add: iter_twice_def)
qed

theorem C3_iterating_twice_same_order_witness:
  "iter_twice example_config
     (sample_tab (Some [''B'', ''A''])
        [sample_panel ''A'' ''A'', sample_panel ''C'' ''C'', sample_panel ''B'' ''B'']) []
     = Inr ([sample_panel ''B'' ''B'', sample_panel ''A'' ''A'', sample_panel ''C'' ''C''],
            [sample_panel ''B'' ''B'', sample_panel ''A'' ''A'', sample_panel ''C'' ''C''])"
proof -
  let ?cs = "[sample_panel ''A'' ''A'', sample_panel ''C'' ''C'', sample_panel ''B'' ''B'']"
  let ?ys = "[sample_panel ''B'' ''B'', sample_panel ''A'' ''A'', sample_panel ''C'' ''C'']"
  let ?lg = "[Debug ''Reordering components per layout file...'',
              Debug (''Reordered sub-component list is: '' @ list_repr (repr example_config) ?ys)]"
  have i: "iter_container example_config (sample_tab (Some [''B'', ''A'']) ?cs) []
             = Inr (?ys, sample_tab (Some [''B'', ''A'']) ?ys, ?lg)"
    by (simp add: sample_tab_def process_components_per_layout_def
          scan_components.simps sample_panel_def)
  have d: "distinct (map comp_name ?cs)" by (simp add: sample_panel_def)
  show ?thesis
    using C3_iterating_twice_same_order [OF i [unfolded sample_tab_def] d]
    by (simp add: sample_tab_def)
qed

text \<open>
  C4. With the layout \<open>["B", "A"]\<close> and the children \<open>[a, c, b]\<close> named \<open>A\<close>, some
  third name, and \<open>B\<close>: the scan for position 0 finds \<open>B\<close> at index 2 and gives
  \<open>[b, c, a]\<close>, the scan for position 1 finds \<open>A\<close> at index 2 and gives \<open>[b, a, c]\<close>,
  which is the result of the loop and of the whole reconciliation.
\<close>

theorem C4_swap_trace:
  assumes "comp_name a = ''A''" and "comp_name b = ''B''"
    and "comp_name c \<noteq> ''A''" and "comp_name c \<noteq> ''B''"
  shows "scan_components ''B'' 0 0 [a, c, b] False = Inr ([b, c, a], True)
       \<and> scan_components ''A'' 1 0 [b, c, a] False = Inr ([b, a, c], True)
       \<and> layout_loop 0 [''B'', ''A''] [a, c, b] lg = Inr ([b, a, c], lg)
       \<and> map_sum id fst (process_components_per_layout cfg (Some [''B'', ''A'']) [a, c, b] lg)
           = Inr [b, a, c]"
proof -
  have s0: "scan_components ''B'' 0 0 [a, c, b] False = Inr ([b, c, a], True)"
    using assms by (simp add: scan_components.simps)
  have s1: "scan_components ''A'' 1 0 [b, c, a] False = Inr ([b, a, c], True)"
    using assms by (simp add: scan_components.simps)
  have l: "\<And>lg. layout_loop 0 [''B'', ''A''] [a, c, b] lg = Inr ([b, a, c], lg)"
    using s0 s1 by simp
  show ?thesis using s0 s1 l by (simp add: process_components_per_layout_def)
qed

theorem C4_swap_trace_witness:
  "scan_components ''B'' 0 0 [sample_panel ''A'' ''A'', sample_panel ''C'' ''C'', sample_panel ''B'' ''B''] False
     = Inr ([sample_panel ''B'' ''B'', sample_panel ''C'' ''C'', sample_panel ''A'' ''A''], True)
   \<and> map_sum id fst (process_components_per_layout example_config (Some [''B'', ''A''])
       [sample_panel ''A'' ''A'', sample_panel ''C'' ''C'', sample_panel ''B'' ''B''] [])
     = Inr [sample_panel ''B'' ''B'', sample_panel ''A'' ''A'', sample_panel ''C'' ''C'']"
  using C4_swap_trace [where a = "sample_panel ''A'' ''A''" and b = "sample_panel ''B'' ''B''"
      and c = "sample_panel ''C'' ''C''" and cfg = example_config and lg = "[]"]
  by (simp add: sample_panel_def)

text \<open>
  C5. A layout entry that no child bears: the scan for it returns the child list as it
  was (so every position keeps its occupant) and raises nothing, and the loop goes on to
  the next entry with the advisory appended to the log. This holds at every position
  \<open>i\<close>, inside the child list or beyond it.
\<close>

theorem C5_unmatched_entry_is_skipped:
  assumes "\<forall>c \<in> set cs. comp_name c \<noteq> item"
  shows "scan_components item i 0 cs False = Inr (cs, False)
       \<and> layout_loop i (item # items) cs lg
           = layout_loop (Suc i) items cs
               (lg @ [Debug (''Item listed in layout file is not available: '' @ item)])"
proof -
  from assms have "\<forall>k. 0 \<le> k \<and> k < length cs \<longrightarrow> comp_name (cs ! k) \<noteq> item" by simp
  from scan_no_match [OF this] have "scan_components item i 0 cs False = Inr (cs, False)" .
  then show ?thesis by simp
qed

theorem C5_unmatched_entry_is_skipped_witness:
  "scan_components ''X'' 0 0 [sample_panel ''A'' ''A'', sample_panel ''B'' ''B''] False
     = Inr ([sample_panel ''A'' ''A'', sample_panel ''B'' ''B''], False)
   \<and> layout_loop 0 [''X'', ''B''] [sample_panel ''A'' ''A'', sample_panel ''B'' ''B''] []
     = Inr ([sample_panel ''A'' ''A'', sample_panel ''B'' ''B''],
            [Debug ''Item listed in layout file is not available: X''])"
  using C5_unmatched_entry_is_skipped
    [where cs = "[sample_panel ''A'' ''A'', sample_panel ''B'' ''B'']" and item = "''X''"
       and i = 0 and items = "[''B'']" and lg = "[]"]
  by (simp add: sample_panel_def scan_components.simps)

section \<open>The claim on \<open>has_commands\<close>\<close>

text \<open>
  When the children of a tab are panels and the tab's reconciliation completes,
  \<open>Tab.has_commands\<close> answers whether some panel has a sub-component, and leaves the
  tab with its reconciled list.
\<close>

lemma any_has_commands_panels:
  "\<forall>p \<in> set ps. \<exists>a cs. p = Container Panel a cs
   \<Longrightarrow> any_has_commands cfg ps lg = Inr (\<exists>p \<in> set ps. sub_components p \<noteq> [], ps, lg)"
  by (induction ps) auto

lemma tab_has_commands_panels:
  assumes "\<forall>p \<in> set cs. \<exists>a' cs'. p = Container Panel a' cs'"
    and "process_components_per_layout cfg (layout_list a) cs lg = Inr (cs', lg')"
  shows "has_commands cfg (Container Tab a cs) lg
           = Inr (\<exists>p \<in> set cs. sub_components p \<noteq> [], Container Tab a cs', lg')"
proof -
  have s: "set cs' = set cs" using process_mset [OF assms(2)] by (rule mset_eq_setD)
  with assms(1) have "\<forall>p \<in> set cs'. \<exists>a' cs''. p = Container Panel a' cs''" by simp
  from any_has_commands_panels [OF this] assms(2) s show ?thesis by simp
qed

text \<open>
  C10. The claim: \<open>Tab.has_commands\<close> returns true exactly when one of the tab's panels
  has a direct child, and false for a tab whose panels are all empty. The method iterates
  over the tab, which reconciles first, so it inherits the failure of C1: for a tab with
  the layout \<open>["A", "B"]\<close> and the single, empty panel \<open>B\<close> the call raises
  \<open>IndexError\<close> where the claim has it return false.
\<close>

theorem C10_tab_has_commands_raises:
  "has_commands example_config
     (sample_tab (Some [''A'', ''B'']) [sample_panel ''B'' ''B'']) [] = Inl IndexError"
  by (simp add: sample_tab_def process_components_per_layout_def
        scan_components.simps sample_panel_def)

section \<open>The claims on construction\<close>

text \<open>
  C6. A directory that does not end with the \<open>type_id\<close> of the class being constructed
  makes the constructor, of a container or of a command, raise
  \<open>PyRevitUnknownFormatError\<close>, so that no component is produced; a directory that ends
  with it passes \<open>_is_valid_dir\<close>, and the constructor does not raise that error.
\<close>

theorem C6_suffix_validation:
  "(\<not> suffix (container_type_id cfg k) dir
      \<longrightarrow> container_init cfg ev k dir = Inl PyRevitUnknownFormatError)
   \<and> (\<not> suffix (command_type_id cfg k') dir
      \<longrightarrow> command_init cfg ev k' dir = Inl PyRevitUnknownFormatError)
   \<and> (suffix (container_type_id cfg k) dir
      \<longrightarrow> is_valid_dir (container_type_id cfg k) dir
          \<and> container_init cfg ev k dir \<noteq> Inl PyRevitUnknownFormatError)
   \<and> (suffix (command_type_id cfg k') dir
      \<longrightarrow> is_valid_dir (command_type_id cfg k') dir
          \<and> command_init cfg ev k' dir \<noteq> Inl PyRevitUnknownFormatError)"
  by (simp add: container_init_def command_init_def is_valid_dir_def endswith_suffix
        split: option.splits)

theorem C6_suffix_validation_witness:
  "container_init example_config example_env Panel ''/pyRevit.package/pyRevit.tab''
     = Inl PyRevitUnknownFormatError
   \<and> command_init example_config example_env PushButton ''/pyRevit.package/pyRevit.tab''
     = Inl PyRevitUnknownFormatError
   \<and> is_valid_dir (container_type_id example_config Tab) ''/pyRevit.package/pyRevit.tab''
   \<and> container_init example_config example_env Tab ''/pyRevit.package/pyRevit.tab''
     \<noteq> Inl PyRevitUnknownFormatError
   \<and> is_valid_dir (command_type_id example_config PushButton)
        ''/pyRevit.package/pyRevit.tab/Edit.panel/Flip doors.pushbutton''
   \<and> command_init example_config example_env PushButton
        ''/pyRevit.package/pyRevit.tab/Edit.panel/Flip doors.pushbutton''
     \<noteq> Inl PyRevitUnknownFormatError"
  using C6_suffix_validation [where cfg = example_config and ev = example_env and k = Panel
      and k' = PushButton and dir = "''/pyRevit.package/pyRevit.tab''"]
    C6_suffix_validation [where cfg = example_config and ev = example_env and k = Tab
      and k' = LinkButton and dir = "''/pyRevit.package/pyRevit.tab''"]
    C6_suffix_validation [where cfg = example_config and ev = example_env and k = Tab
      and k' = PushButton
      and dir = "''/pyRevit.package/pyRevit.tab/Edit.panel/Flip doors.pushbutton''"]
  by (simp add: example_config_def suffix_to_prefix)

text \<open>
  C7. A command directory with the right suffix and without the script file makes the
  constructor raise \<open>PyRevitNoScriptFileError\<close>; whenever a command is constructed, its
  script file exists.
\<close>

theorem C7_missing_script_file:
  "(suffix (command_type_id cfg k) dir
      \<and> \<not> path_exists ev (join_path dir (DEFAULT_SCRIPT_FILE cfg))
      \<longrightarrow> command_init cfg ev k dir = Inl PyRevitNoScriptFileError)
   \<and> (\<forall>c. command_init cfg ev k dir = Inr c
      \<longrightarrow> path_exists ev (join_path dir (DEFAULT_SCRIPT_FILE cfg)))"
  by (auto simp: command_init_def is_valid_dir_def endswith_suffix verify_file_def
        split: option.splits if_splits)

theorem C7_missing_script_file_witness:
  "command_init example_config example_env PushButton
     ''/pyRevit.package/pyRevit.tab/Edit.panel/Make.pushbutton''
     = Inl PyRevitNoScriptFileError
   \<and> path_exists example_env
       (join_path ''/pyRevit.package/pyRevit.tab/Edit.panel/Flip doors.pushbutton''
          (DEFAULT_SCRIPT_FILE example_config))"
  using C7_missing_script_file [where cfg = example_config and ev = example_env
      and k = PushButton and dir = "''/pyRevit.package/pyRevit.tab/Edit.panel/Make.pushbutton''"]
    C7_missing_script_file [where cfg = example_config and ev = example_env
      and k = PushButton
      and dir = "''/pyRevit.package/pyRevit.tab/Edit.panel/Flip doors.pushbutton''"]
  by (simp add: example_config_def example_env_def suffix_to_prefix join_path_def
        endswith_def sep_def)

text \<open>
  C8. The unique name of a container and of a command is a function of the directory
  string alone (and of \<open>cleanup_string\<close>): the sanitization of the concatenated stems of
  the segments with a non-empty extension, in path order. The accumulator loop of the
  source computes what the specification's wording says.
\<close>

theorem C8_unique_name:
  "container_get_unique_name ev dir = unique_name_spec ev dir
   \<and> command_get_unique_name ev dir = unique_name_spec ev dir"
  using unique_name_loop_eq [of "split_str sep dir" "[]"]
  by (simp add: container_get_unique_name_def command_get_unique_name_def unique_name_spec_def)

text \<open>The two examples of the docstrings of \<open>_get_unique_name\<close>.\<close>

lemma docstring_unique_names:
  "container_get_unique_name example_env ''/pyRevit.package/pyRevit.tab/Edit.panel''
     = ''pyRevitpyRevitEdit''"
  "command_get_unique_name example_env
     ''/pyRevit.package/pyRevit.tab/Edit.panel/Flip doors.pushbutton''
     = ''pyRevitpyRevitEditFlipdoors''"
  by (simp_all add: container_get_unique_name_def command_get_unique_name_def example_env_def
        sep_def extsep_def splitext_def splitext_loop.simps Let_def)




end
